theory Spec2Isabelle
  imports Complex_Main
begin

section \<open>The project tree and the consolidator's configuration\<close>

text \<open>
  The embedding follows \<^verbatim>\<open>ProjectConsolidator\<close> in \<^verbatim>\<open>main.py\<close>. Strings are
  lists of bytes (the UTF-8 encoding of the Python text), so the length of the written text is
  the size of the output file.

  What \<^verbatim>\<open>open(file_path, 'r', ...)\<close> followed by \<^verbatim>\<open>infile.read()\<close> yields for a file is
  part of the tree: \<open>Inr content\<close> when the read succeeds, \<open>Inl msg\<close> when it raises an
  exception \<open>e\<close> with \<open>str(e) = msg\<close>. The children of a directory are listed in the order in
  which \<^verbatim>\<open>os.walk\<close> (that is, \<^verbatim>\<open>os.scandir\<close>) produces them. Symbolic links are not
  modelled.
\<close>

type_synonym read_result = "string + string"

datatype node = File string read_result | Dir string "node list"

record consolidator =
  root_dir :: string
  output_file :: string
  include_ext :: "string list"
  exclude_patterns :: "string list"
  progress_callback :: bool
  status_callback :: bool
  finished_callback :: bool

text \<open>The three callbacks are optional in the constructor (default \<^verbatim>\<open>None\<close>); the record
  keeps whether each one was given.\<close>

subsection \<open>String and path primitives of the Python library\<close>

text \<open>\<^verbatim>\<open>s.endswith(ext)\<close>\<close>

definition endswith :: "string \<Rightarrow> string \<Rightarrow> bool" where
  "endswith s ext \<longleftrightarrow> length ext \<le> length s \<and> drop (length s - length ext) s = ext"

text \<open>\<^verbatim>\<open>posixpath.join(a, b)\<close>\<close>

definition os_path_join :: "string \<Rightarrow> string \<Rightarrow> string" where
  "os_path_join a b =
     (if b \<noteq> [] \<and> hd b = CHR ''/'' then b
      else if a = [] \<or> last a = CHR ''/'' then a @ b
      else a @ ''/'' @ b)"

text \<open>\<^verbatim>\<open>posixpath.basename(p)\<close>: \<^verbatim>\<open>p[p.rfind('/') + 1:]\<close>\<close>

definition os_path_basename :: "string \<Rightarrow> string" where
  "os_path_basename p = rev (takeWhile (\<lambda>ch. ch \<noteq> CHR ''/'') (rev p))"

text \<open>
  \<^verbatim>\<open>posixpath.splitext(p)[1]\<close>: the text from the last dot of the last path component on,
  provided a character other than a dot precedes that dot in the component; otherwise empty.
\<close>

definition splitext_ext :: "string \<Rightarrow> string" where
  "splitext_ext p =
     (let comp = os_path_basename p;
          ext_rev = takeWhile (\<lambda>ch. ch \<noteq> CHR ''.'') (rev comp);
          stem = take (length comp - length ext_rev - 1) comp
      in if CHR ''.'' \<in> set comp \<and> (\<exists>ch \<in> set stem. ch \<noteq> CHR ''.'')
         then CHR ''.'' # rev ext_rev else [])"

text \<open>\<^verbatim>\<open>s.lstrip('.')\<close>\<close>

definition lstrip_dots :: "string \<Rightarrow> string" where
  "lstrip_dots s = dropWhile (\<lambda>ch. ch = CHR ''.'') s"

text \<open>\<^verbatim>\<open>content.count('\n')\<close>\<close>

definition count_newlines :: "string \<Rightarrow> int" where
  "count_newlines content = int (length (filter (\<lambda>ch. ch = CHR 0x0A) content))"

text \<open>\<^verbatim>\<open>str(n)\<close> for an integer.\<close>

fun str_nat :: "nat \<Rightarrow> string" where
  "str_nat n =
     (if n < 10 then [char_of (48 + n)]
      else str_nat (n div 10) @ [char_of (48 + n mod 10)])"

declare str_nat.simps [simp del]

definition str_int :: "int \<Rightarrow> string" where
  "str_int i = (if i < 0 then CHR ''-'' # str_nat (nat (- i)) else str_nat (nat i))"

text \<open>
  A file found by the walk is kept with the names leading to it from the root directory.
  \<^verbatim>\<open>os.walk\<close> builds \<open>dirpath\<close> by joining these names onto \<open>root_dir\<close>, and
  \<^verbatim>\<open>os.path.relpath(file_path, root_dir)\<close> gives them back joined by the separator.
\<close>

definition file_path_of :: "consolidator \<Rightarrow> string list \<Rightarrow> string" where
  "file_path_of c segs = foldl os_path_join (root_dir c) segs"

fun relpath :: "string list \<Rightarrow> string" where
  "relpath [] = ''.''"
| "relpath [s] = s"
| "relpath (s # ss) = s @ ''/'' @ relpath ss"

section \<open>First pass: the walk that collects the candidates\<close>

text \<open>The test of line 69 on a file name.\<close>

definition is_candidate :: "consolidator \<Rightarrow> string \<Rightarrow> bool" where
  "is_candidate c filename \<longleftrightarrow>
     list_ex (\<lambda>ext. endswith filename ext) (include_ext c)
     \<and> filename \<notin> set (exclude_patterns c)"

text \<open>The inner loop over \<open>filenames\<close> of one directory.\<close>

fun files_here :: "consolidator \<Rightarrow> string list \<Rightarrow> node list \<Rightarrow> (string list \<times> read_result) list" where
  "files_here c dirpath [] = []"
| "files_here c dirpath (File filename r # ns) =
     (if is_candidate c filename then (dirpath @ [filename], r) # files_here c dirpath ns
      else files_here c dirpath ns)"
| "files_here c dirpath (Dir d sub # ns) = files_here c dirpath ns"

text \<open>
  \<^verbatim>\<open>os.walk(root_dir, topdown=True)\<close> with the pruning of line 66: a directory is reported
  with its files first, then the walk descends into each subdirectory whose name is left in
  \<open>dirnames\<close>, in order.
\<close>

function (sequential) walk :: "consolidator \<Rightarrow> string list \<Rightarrow> node list \<Rightarrow> (string list \<times> read_result) list"
  and walk_dirs :: "consolidator \<Rightarrow> string list \<Rightarrow> node list \<Rightarrow> (string list \<times> read_result) list" where
  "walk c dirpath entries = files_here c dirpath entries @ walk_dirs c dirpath entries"
| "walk_dirs c dirpath [] = []"
| "walk_dirs c dirpath (File filename r # ns) = walk_dirs c dirpath ns"
| "walk_dirs c dirpath (Dir d sub # ns) =
     (if d \<in> set (exclude_patterns c) then [] else walk c (dirpath @ [d]) sub)
     @ walk_dirs c dirpath ns"
  by pat_completeness auto
termination
  by (relation "measure (\<lambda>x. case x of
        Inl (c, dirpath, entries) \<Rightarrow> 2 * size_list size entries + 1
      | Inr (c, dirpath, entries) \<Rightarrow> 2 * size_list size entries)") auto

declare walk.simps [simp del]

section \<open>Second pass: writing the output file\<close>

text \<open>
  The result handed to \<open>finished_callback\<close>: the dictionary with
  \<^verbatim>\<open>status = "Success"\<close> and the fields \<open>files_processed\<close>, \<open>total_lines\<close>,
  \<open>output_size_kb\<close> (in this order), or the one with \<^verbatim>\<open>status = "Error"\<close> and
  \<open>message\<close>. The quotient \<^verbatim>\<open>os.path.getsize(...) / 1024\<close> is kept as an exact rational.
\<close>

datatype summary = Success int int rat | Error string

text \<open>What the run does that can be observed from outside, in order: the callbacks it calls,
  and the opening and closing of the output file.\<close>

datatype event = Status string | Progress rat | Finished summary | OutOpened | OutClosed

text \<open>
  The environment decides the faults of the output side: whether opening the output file
  raises, how many bytes the device takes before a write raises (\<open>None\<close>: no limit), and
  whether \<^verbatim>\<open>os.path.getsize\<close> raises.
\<close>

record env =
  open_error :: "string option"
  disk_free :: "nat option"
  getsize_error :: "string option"

text \<open>The text of the output file, the events so far, and the two counters of the loop.\<close>

record state =
  out :: string
  events :: "event list"
  processed_files :: int
  total_lines :: int

abbreviation NL :: string where
  "NL \<equiv> [CHR 0x0A]"

definition update_status :: "consolidator \<Rightarrow> string \<Rightarrow> state \<Rightarrow> state" where
  "update_status c message st =
     (if status_callback c then st\<lparr>events := events st @ [Status message]\<rparr> else st)"

definition update_progress :: "consolidator \<Rightarrow> rat \<Rightarrow> state \<Rightarrow> state" where
  "update_progress c v st =
     (if progress_callback c then st\<lparr>events := events st @ [Progress v]\<rparr> else st)"

text \<open>\<^verbatim>\<open>outfile.write(s)\<close>: the exception's message, if it raises, and the state after it.\<close>

definition outfile_write :: "env \<Rightarrow> string \<Rightarrow> state \<Rightarrow> string option \<times> state" where
  "outfile_write ev s st =
     (case disk_free ev of
        None \<Rightarrow> (None, st\<lparr>out := out st @ s\<rparr>)
      | Some cap \<Rightarrow>
          if length (out st) + length s \<le> cap then (None, st\<lparr>out := out st @ s\<rparr>)
          else (Some ''[Errno 28] No space left on device'', st))"

text \<open>Consecutive writes: the first one that raises ends the sequence.\<close>

fun write_all :: "env \<Rightarrow> string list \<Rightarrow> state \<Rightarrow> string option \<times> state" where
  "write_all ev [] st = (None, st)"
| "write_all ev (s # ss) st =
     (case outfile_write ev s st of
        (Some e, st') \<Rightarrow> (Some e, st')
      | (None, st') \<Rightarrow> write_all ev ss st')"

text \<open>\<^verbatim>\<open>a / b\<close> on integers raises \<^verbatim>\<open>ZeroDivisionError\<close> for \<open>b = 0\<close>.\<close>

definition py_truediv :: "int \<Rightarrow> int \<Rightarrow> string + rat" where
  "py_truediv a b = (if b = 0 then Inl ''division by zero'' else Inr (of_int a / of_int b))"

text \<open>Lines 88 to 101, the body of the inner \<^verbatim>\<open>try\<close>: read the file, count its lines, write
  its block.\<close>

definition read_and_write_block ::
    "consolidator \<Rightarrow> env \<Rightarrow> string list \<times> read_result \<Rightarrow> state \<Rightarrow> string option \<times> state" where
  "read_and_write_block c ev cand st =
     (case snd cand of
        Inl e \<Rightarrow> (Some e, st)
      | Inr content \<Rightarrow>
          let lines = count_newlines content + 1;
              st' = st\<lparr>total_lines := total_lines st + lines\<rparr>;
              lang = lstrip_dots (splitext_ext (file_path_of c (fst cand)))
          in write_all ev
               [replicate 80 CHR ''='' @ NL,
                ''### FILE: '' @ relpath (fst cand) @ NL,
                replicate 80 CHR ''='' @ NL,
                ''```'' @ lang @ NL,
                content,
                NL @ ''```'' @ NL @ NL] st')"

text \<open>Lines 84 to 107, one round of the loop over \<open>files_to_process_list\<close>.\<close>

definition process_file ::
    "consolidator \<Rightarrow> env \<Rightarrow> int \<Rightarrow> string list \<times> read_result \<Rightarrow> state \<Rightarrow> string option \<times> state" where
  "process_file c ev total_files_to_process cand st =
     (let relative_path = relpath (fst cand);
          st1 = update_status c (''Processing: '' @ relative_path) st
      in case read_and_write_block c ev cand st1 of
           (inner, st2) \<Rightarrow>
             (case (case inner of
                      None \<Rightarrow> (None, st2)
                    | Some e \<Rightarrow>
                        outfile_write ev
                          (''--- ERROR reading '' @ relative_path @ '': '' @ e @ '' ---'' @ NL @ NL)
                          st2) of
                (Some e, st3) \<Rightarrow> (Some e, st3)
              | (None, st3) \<Rightarrow>
                  let st4 = st3\<lparr>processed_files := processed_files st3 + 1\<rparr>
                  in (case py_truediv (processed_files st4) total_files_to_process of
                        Inl e \<Rightarrow> (Some e, st4)
                      | Inr v \<Rightarrow> (None, update_progress c v st4))))"

fun process_all ::
    "consolidator \<Rightarrow> env \<Rightarrow> int \<Rightarrow> (string list \<times> read_result) list \<Rightarrow> state \<Rightarrow> string option \<times> state" where
  "process_all c ev total_files_to_process [] st = (None, st)"
| "process_all c ev total_files_to_process (cand # rest) st =
     (case process_file c ev total_files_to_process cand st of
        (Some e, st') \<Rightarrow> (Some e, st')
      | (None, st') \<Rightarrow> process_all c ev total_files_to_process rest st')"

text \<open>Lines 79 to 107: the \<^verbatim>\<open>with\<close> block, entered once the output file is open.\<close>

definition write_output ::
    "consolidator \<Rightarrow> env \<Rightarrow> int \<Rightarrow> (string list \<times> read_result) list \<Rightarrow> state \<Rightarrow> string option \<times> state" where
  "write_output c ev total_files_to_process files_to_process_list st =
     (let project_name = os_path_basename (root_dir c)
      in case outfile_write ev (''--- Project Context for: '' @ project_name @ '' ---'' @ NL @ NL) st of
           (Some e, st') \<Rightarrow> (Some e, st')
         | (None, st') \<Rightarrow> process_all c ev total_files_to_process files_to_process_list st')"

text \<open>
  \<^verbatim>\<open>_process_files\<close>. The result is the summary and the final state; the summary is also the
  argument of the \<open>Finished\<close> event when \<open>finished_callback\<close> is given. Leaving the
  \<^verbatim>\<open>with\<close> block closes the file whether or not its body raised. The counter
  \<open>total_files_to_process\<close> is incremented with every append to \<open>files_to_process_list\<close>,
  so it is the length of that list.
\<close>

definition process_files :: "consolidator \<Rightarrow> env \<Rightarrow> node list \<Rightarrow> summary \<times> state" where
  "process_files c ev tree =
     (let st0 = update_status c ''Starting scan...''
                  \<lparr>out = [], events = [], processed_files = 0, total_lines = 0\<rparr>;
          files_to_process_list = walk c [] tree;
          total_files_to_process = int (length files_to_process_list);
          st1 = update_status c
                  (''Found '' @ str_int total_files_to_process @ '' files to process.'') st0
      in case (case open_error ev of
                 Some e \<Rightarrow> (Error e, st1)
               | None \<Rightarrow>
                   (case write_output c ev total_files_to_process files_to_process_list
                           (st1\<lparr>out := [], events := events st1 @ [OutOpened]\<rparr>) of
                      (r, st_body) \<Rightarrow>
                        let st_closed = st_body\<lparr>events := events st_body @ [OutClosed]\<rparr>
                        in (case r of
                              Some e \<Rightarrow> (Error e, st_closed)
                            | None \<Rightarrow>
                                (case getsize_error ev of
                                   Some e \<Rightarrow> (Error e, st_closed)
                                 | None \<Rightarrow>
                                     (Success (processed_files st_closed) (total_lines st_closed)
                                        (of_nat (length (out st_closed)) / 1024),
                                      st_closed))))) of
           (summary, st2) \<Rightarrow>
             (summary,
              if finished_callback c then st2\<lparr>events := events st2 @ [Finished summary]\<rparr>
              else st2))"

section \<open>Notions used to state the properties\<close>

subsection \<open>The selection rule in the specification's words\<close>

text \<open>All files of a tree, each given by the names leading to it from the root.\<close>

fun files_of :: "node \<Rightarrow> string list list"
  and files_in :: "node list \<Rightarrow> string list list" where
  "files_of (File filename r) = [[filename]]"
| "files_of (Dir d sub) = map ((#) d) (files_in sub)"
| "files_in [] = []"
| "files_in (n # ns) = files_of n @ files_in ns"

text \<open>
  The specification's rule, not the code's: the file's name ends with a configured suffix, is
  not itself an exclude pattern, and no directory on the way down from the root is named as
  an exclude pattern.
\<close>

definition spec_selected :: "consolidator \<Rightarrow> string list \<Rightarrow> bool" where
  "spec_selected c p \<longleftrightarrow>
     p \<noteq> []
     \<and> (\<exists>ext \<in> set (include_ext c). \<exists>stem. last p = stem @ ext)
     \<and> last p \<notin> set (exclude_patterns c)
     \<and> (\<forall>d \<in> set (butlast p). d \<notin> set (exclude_patterns c))"

subsection \<open>The texts the second pass writes\<close>

text \<open>The strings of lines 81, 93 to 101 and 104, as functions of what they are formatted
  from.\<close>

definition project_header :: "consolidator \<Rightarrow> string" where
  "project_header c =
     ''--- Project Context for: '' @ os_path_basename (root_dir c) @ '' ---'' @ NL @ NL"

definition lang_of :: "consolidator \<Rightarrow> string list \<Rightarrow> string" where
  "lang_of c p = lstrip_dots (splitext_ext (file_path_of c p))"

definition file_block :: "consolidator \<Rightarrow> string list \<Rightarrow> string \<Rightarrow> string" where
  "file_block c p content =
     replicate 80 CHR ''='' @ NL @ ''### FILE: '' @ relpath p @ NL @ replicate 80 CHR ''='' @ NL
     @ ''```'' @ lang_of c p @ NL @ content @ NL @ ''```'' @ NL @ NL"

definition error_annotation :: "string list \<Rightarrow> string \<Rightarrow> string" where
  "error_annotation p e = ''--- ERROR reading '' @ relpath p @ '': '' @ e @ '' ---'' @ NL @ NL"

text \<open>What a candidate leaves in the output: its block, or the annotation of its error.\<close>

definition entry_text :: "consolidator \<Rightarrow> string list \<times> read_result \<Rightarrow> string" where
  "entry_text c cand =
     (case snd cand of
        Inl e \<Rightarrow> error_annotation (fst cand) e
      | Inr content \<Rightarrow> file_block c (fst cand) content)"

text \<open>The block of the file \<open>p\<close>, with some content, is part of a text.\<close>

definition block_appears :: "consolidator \<Rightarrow> string list \<Rightarrow> string \<Rightarrow> bool" where
  "block_appears c p output \<longleftrightarrow>
     (\<exists>content pre post. output = pre @ file_block c p content @ post)"

text \<open>What a candidate adds to \<open>total_lines\<close>.\<close>

definition counted_lines :: "string list \<times> read_result \<Rightarrow> int" where
  "counted_lines cand =
     (case snd cand of Inl e \<Rightarrow> 0 | Inr content \<Rightarrow> count_newlines content + 1)"

subsection \<open>Reading the events of a run\<close>

text \<open>The progress values reported, in order.\<close>

fun progress_values :: "event list \<Rightarrow> rat list" where
  "progress_values [] = []"
| "progress_values (Progress v # es) = v # progress_values es"
| "progress_values (e # es) = progress_values es"


definition is_callback :: "event \<Rightarrow> bool" where
  "is_callback e = (case e of Status m \<Rightarrow> True | Progress v \<Rightarrow> True | _ \<Rightarrow> False)"

definition status_events :: "consolidator \<Rightarrow> string \<Rightarrow> event list" where
  "status_events c m = (if status_callback c then [Status m] else [])"

definition progress_events :: "consolidator \<Rightarrow> rat \<Rightarrow> event list" where
  "progress_events c v = (if progress_callback c then [Progress v] else [])"

text \<open>The two status messages of the first pass.\<close>

definition initial_status :: "consolidator \<Rightarrow> nat \<Rightarrow> event list" where
  "initial_status c n =
     status_events c ''Starting scan...''
     @ status_events c (''Found '' @ str_int (int n) @ '' files to process.'')"

text \<open>The state in which the \<^verbatim>\<open>with\<close> block is entered, for \<open>n\<close> candidates.\<close>

definition opened_state :: "consolidator \<Rightarrow> nat \<Rightarrow> state" where
  "opened_state c n =
     (let st1 = update_status c (''Found '' @ str_int (int n) @ '' files to process.'')
                  (update_status c ''Starting scan...''
                     \<lparr>out = [], events = [], processed_files = 0, total_lines = 0\<rparr>)
      in st1\<lparr>out := [], events := events st1 @ [OutOpened]\<rparr>)"

text \<open>The progress values of \<open>k\<close> rounds of the loop that starts with \<open>done\<close> files
  processed out of \<open>tot\<close>.\<close>

definition loop_progress :: "consolidator \<Rightarrow> int \<Rightarrow> int \<Rightarrow> nat \<Rightarrow> rat list" where
  "loop_progress c tot done k =
     (if progress_callback c
      then map (\<lambda>i. of_int (done + 1 + int i) / of_int tot) [0..<k] else [])"

subsection \<open>A concrete project\<close>

text \<open>
  A root directory named \<open>build\<close>, with \<open>build\<close> excluded and \<open>.py\<close> included. It holds two
  Python files, the second of which cannot be read, a subdirectory \<open>build\<close> (excluded), a
  subdirectory \<open>s\<close> with an empty Python file, and a text file. The output side raises
  nothing.
\<close>

definition ex_config :: consolidator where
  "ex_config = \<lparr>root_dir = ''/w/build'', output_file = ''/w/out.txt'', include_ext = [''.py''],
     exclude_patterns = [''build''], progress_callback = True, status_callback = True,
     finished_callback = True\<rparr>"

definition ex_env :: env where
  "ex_env = \<lparr>open_error = None, disk_free = None, getsize_error = None\<rparr>"

definition ex_tree :: "node list" where
  "ex_tree = [File ''a.py'' (Inr (''x'' @ NL @ ''y'')), File ''b.py'' (Inl ''denied''),
     Dir ''build'' [File ''c.py'' (Inr ''z'')], Dir ''s'' [File ''d.py'' (Inr [])],
     File ''e.txt'' (Inr ''t'')]"

section \<open>Auxiliary facts\<close>

lemma endswith_iff: "endswith s ext \<longleftrightarrow> (\<exists>stem. s = stem @ ext)"
proof
  assume "endswith s ext"
  then have "s = take (length s - length ext) s @ ext"
    unfolding endswith_def by (metis append_take_drop_id)
  then show "\<exists>stem. s = stem @ ext" ..
next
  assume "\<exists>stem. s = stem @ ext"
  then show "endswith s ext" by (auto simp: endswith_def)
qed

lemma is_candidate_iff:
  "is_candidate c n \<longleftrightarrow> spec_selected c [n]"
  by (auto simp: is_candidate_def spec_selected_def list_ex_iff endswith_iff)

lemma files_nonempty:
  "p \<in> set (files_of n) \<Longrightarrow> p \<noteq> []"
  "p \<in> set (files_in ns) \<Longrightarrow> p \<noteq> []"
  by (induction n and ns arbitrary: p and p rule: files_of_files_in.induct) auto

lemma spec_selected_Cons:
  "p \<noteq> [] \<Longrightarrow> spec_selected c (d # p) \<longleftrightarrow> d \<notin> set (exclude_patterns c) \<and> spec_selected c p"
  by (auto simp: spec_selected_def)

lemma files_here_set:
  "fst ` set (files_here c dirpath ns) =
     {dirpath @ [n] | n r. File n r \<in> set ns \<and> spec_selected c [n]}"
  by (induction c dirpath ns rule: files_here.induct) (auto simp: is_candidate_iff)

lemma files_here_member:
  "File filename r \<in> set ns \<and> is_candidate c filename \<Longrightarrow>
     (dirpath @ [filename], r) \<in> set (files_here c dirpath ns)"
  by (induction c dirpath ns rule: files_here.induct) auto

lemma files_in_single:
  "[n] \<in> set (files_in ns) \<longleftrightarrow> (\<exists>r. File n r \<in> set ns)"
proof (induction ns)
  case Nil
  then show ?case by simp
next
  case (Cons a ns)
  then show ?case by (cases a) (auto dest: files_nonempty)
qed

lemma length_one_iff: "length p = Suc 0 \<longleftrightarrow> (\<exists>n. p = [n])"
  by (cases p) auto

lemma walk_set_aux:
  "fst ` set (walk c dirpath ns) = (\<lambda>p. dirpath @ p) ` {p \<in> set (files_in ns). spec_selected c p}"
  "fst ` set (walk_dirs c dirpath ns) =
     (\<lambda>p. dirpath @ p) ` {p \<in> set (files_in ns). spec_selected c p \<and> length p \<noteq> 1}"
proof (induction c dirpath ns and c dirpath ns rule: walk_walk_dirs.induct)
  case (1 c dirpath entries)
  have "{p \<in> set (files_in entries). spec_selected c p}
      = {[n] | n r. File n r \<in> set entries \<and> spec_selected c [n]}
        \<union> {p \<in> set (files_in entries). spec_selected c p \<and> length p \<noteq> 1}"
    by (auto simp: files_in_single length_one_iff)
  then show ?case
    using 1 by (simp add: image_Un files_here_set walk.simps) blast
next
  case (2 c dirpath)
  then show ?case by simp
next
  case (3 c dirpath filename r ns)
  then show ?case by auto
next
  case (4 c dirpath d sub ns)
  have sub: "{p \<in> set (map ((#) d) (files_in sub)). spec_selected c p \<and> length p \<noteq> 1}
             = (if d \<in> set (exclude_patterns c) then {}
                else (#) d ` {p \<in> set (files_in sub). spec_selected c p})"
    by (auto simp: spec_selected_Cons files_nonempty length_one_iff dest: files_nonempty)
  have split: "{p \<in> set (files_in (Dir d sub # ns)). spec_selected c p \<and> length p \<noteq> 1}
      = {p \<in> set (map ((#) d) (files_in sub)). spec_selected c p \<and> length p \<noteq> 1}
        \<union> {p \<in> set (files_in ns). spec_selected c p \<and> length p \<noteq> 1}"
    by auto
  show ?case
  proof (cases "d \<in> set (exclude_patterns c)")
    case True
    then show ?thesis using 4(2) unfolding split sub by simp
  next
    case False
    then show ?thesis using 4(1)[OF False] 4(2) unfolding split sub
      by (simp add: image_Un image_image)
  qed
qed

lemma outfile_write_frame:
  assumes "outfile_write ev s st = (r, st')"
  shows "events st' = events st" "processed_files st' = processed_files st"
    "total_lines st' = total_lines st"
    "r = Some e \<Longrightarrow> disk_free ev \<noteq> None \<and> e = ''[Errno 28] No space left on device''"
    "r = Some e \<Longrightarrow> out st' = out st"
    "r = None \<Longrightarrow> out st' = out st @ s"
  using assms by (auto simp: outfile_write_def split: option.splits if_splits)

lemma write_all_frame:
  assumes "write_all ev ss st = (r, st')"
  shows "events st' = events st \<and> processed_files st' = processed_files st
    \<and> total_lines st' = total_lines st
    \<and> (\<forall>e. r = Some e \<longrightarrow> disk_free ev \<noteq> None \<and> e = ''[Errno 28] No space left on device'')"
  using assms
proof (induction ss arbitrary: st)
  case Nil
  then show ?case by simp
next
  case (Cons s ss)
  obtain r1 st1 where w: "outfile_write ev s st = (r1, st1)" by (cases "outfile_write ev s st")
  show ?case
  proof (cases r1)
    case None
    with Cons.prems w have "write_all ev ss st1 = (r, st')" by simp
    from Cons.IH[OF this] outfile_write_frame(1-3)[OF w] show ?thesis by simp
  next
    case (Some e1)
    with Cons.prems w have "r = Some e1" "st' = st1" by simp_all
    with outfile_write_frame[OF w] Some show ?thesis by simp
  qed
qed

lemma read_and_write_block_frame:
  assumes "read_and_write_block c ev cand st = (r, st')"
  shows "events st' = events st \<and> processed_files st' = processed_files st"
proof (cases "snd cand")
  case (Inl e)
  with assms show ?thesis by (simp add: read_and_write_block_def)
next
  case (Inr content)
  with assms obtain ss l where "write_all ev ss (st\<lparr>total_lines := l\<rparr>) = (r, st')"
    by (simp add: read_and_write_block_def Let_def del: write_all.simps)
  from write_all_frame[OF this] show ?thesis by simp
qed

lemma process_file_frame:
  assumes "process_file c ev tot cand st = (r, st')" and "tot \<noteq> 0"
  shows "events st' = events st @ status_events c (''Processing: '' @ relpath (fst cand))
            @ (if r = None then progress_events c (of_int (processed_files st + 1) / of_int tot) else [])"
    and "processed_files st' = (if r = None then processed_files st + 1 else processed_files st)"
    and "r = Some e \<Longrightarrow> disk_free ev \<noteq> None \<and> e = ''[Errno 28] No space left on device''"
proof -
  define st1 where "st1 = update_status c (''Processing: '' @ relpath (fst cand)) st"
  obtain inner st2 where rw: "read_and_write_block c ev cand st1 = (inner, st2)"
    by (cases "read_and_write_block c ev cand st1")
  have e1: "events st1 = events st @ status_events c (''Processing: '' @ relpath (fst cand))"
    and p1: "processed_files st1 = processed_files st"
    by (simp_all add: st1_def update_status_def status_events_def)
  from read_and_write_block_frame[OF rw]
  have e2: "events st2 = events st1" and p2: "processed_files st2 = processed_files st1" by simp_all
  define handled where "handled = (case inner of None \<Rightarrow> (None, st2)
      | Some e \<Rightarrow> outfile_write ev
          (''--- ERROR reading '' @ relpath (fst cand) @ '': '' @ e @ '' ---'' @ NL @ NL) st2)"
  obtain outer st3 where h: "handled = (outer, st3)" by (cases handled)
  have f3: "events st3 = events st2 \<and> processed_files st3 = processed_files st2
      \<and> (\<forall>e. outer = Some e \<longrightarrow> disk_free ev \<noteq> None \<and> e = ''[Errno 28] No space left on device'')"
    using h unfolding handled_def
    by (cases inner) (auto dest: outfile_write_frame)
  have "process_file c ev tot cand st = (case outer of Some e \<Rightarrow> (Some e, st3)
      | None \<Rightarrow> (case py_truediv (processed_files (st3\<lparr>processed_files := processed_files st3 + 1\<rparr>)) tot of
           Inl e \<Rightarrow> (Some e, st3\<lparr>processed_files := processed_files st3 + 1\<rparr>)
         | Inr v \<Rightarrow> (None, update_progress c v (st3\<lparr>processed_files := processed_files st3 + 1\<rparr>))))"
    unfolding process_file_def Let_def st1_def[symmetric] rw prod.case handled_def[symmetric] h
    by (cases outer) simp_all
  with assms have res: "(r, st') = (case outer of Some e \<Rightarrow> (Some e, st3)
      | None \<Rightarrow> (None, update_progress c (of_int (processed_files st3 + 1) / of_int tot)
                        (st3\<lparr>processed_files := processed_files st3 + 1\<rparr>)))"
    by (cases outer) (auto simp: py_truediv_def)
  show "events st' = events st @ status_events c (''Processing: '' @ relpath (fst cand))
            @ (if r = None then progress_events c (of_int (processed_files st + 1) / of_int tot) else [])"
    using res f3 e1 e2 p1 p2
    by (cases outer) (auto simp: update_progress_def progress_events_def)
  show "processed_files st' = (if r = None then processed_files st + 1 else processed_files st)"
    using res f3 p1 p2 by (cases outer) (auto simp: update_progress_def)
  show "r = Some e \<Longrightarrow> disk_free ev \<noteq> None \<and> e = ''[Errno 28] No space left on device''"
    using res f3 by (cases outer) auto
qed

lemma progress_values_append:
  "progress_values (xs @ ys) = progress_values xs @ progress_values ys"
  by (induction xs rule: progress_values.induct) simp_all

lemma progress_values_status [simp]: "progress_values (status_events c m) = []"
  by (simp add: status_events_def)

lemma callback_status [simp]: "list_all is_callback (status_events c m)"
  by (simp add: status_events_def is_callback_def)

lemma callback_progress [simp]: "list_all is_callback (progress_events c v)"
  by (simp add: progress_events_def is_callback_def)

lemma upt_0_Suc: "[0..<Suc k] = 0 # map Suc [0..<k]"
  by (simp add: upt_conv_Cons map_Suc_upt del: upt_Suc)

lemma loop_progress_Suc:
  "loop_progress c tot done (Suc k) =
     progress_values (progress_events c (of_int (done + 1) / of_int tot)) @ loop_progress c tot (done + 1) k"
  unfolding loop_progress_def upt_0_Suc
  by (simp add: progress_events_def comp_def add.commute add.left_commute)

lemma process_all_frame:
  assumes "process_all c ev tot fs st = (r, st')" and "fs \<noteq> [] \<longrightarrow> tot \<noteq> 0"
  shows "\<exists>es k. events st' = events st @ es \<and> list_all is_callback es
           \<and> k \<le> length fs \<and> (r = None \<longrightarrow> k = length fs)
           \<and> processed_files st' = processed_files st + int k
           \<and> progress_values es = loop_progress c tot (processed_files st) k
           \<and> (\<forall>e. r = Some e \<longrightarrow> disk_free ev \<noteq> None \<and> e = ''[Errno 28] No space left on device'')"
  using assms
proof (induction fs arbitrary: st)
  case Nil
  then show ?case by (simp add: loop_progress_def)
next
  case (Cons f fs)
  then have tot: "tot \<noteq> 0" by simp
  obtain r1 st1 where pf: "process_file c ev tot f st = (r1, st1)"
    by (cases "process_file c ev tot f st")
  note fr = process_file_frame[OF pf tot]
  show ?case
  proof (cases r1)
    case (Some e1)
    with Cons.prems pf have "r = Some e1" "st' = st1" by simp_all
    with fr Some show ?thesis
      by (intro exI[of _ "status_events c (''Processing: '' @ relpath (fst f))"] exI[of _ 0])
         (simp add: loop_progress_def)
  next
    case None
    with Cons.prems pf have "process_all c ev tot fs st1 = (r, st')" by simp
    from Cons.IH[OF this] tot obtain es k where
      IH: "events st' = events st1 @ es" "list_all is_callback es" "k \<le> length fs"
        "r = None \<longrightarrow> k = length fs" "processed_files st' = processed_files st1 + int k"
        "progress_values es = loop_progress c tot (processed_files st1) k"
        "\<forall>e. r = Some e \<longrightarrow> disk_free ev \<noteq> None \<and> e = ''[Errno 28] No space left on device''"
      by auto
    let ?es = "status_events c (''Processing: '' @ relpath (fst f))
               @ progress_events c (of_int (processed_files st + 1) / of_int tot) @ es"
    have "events st' = events st @ ?es" using IH(1) fr(1) None by simp
    moreover have "list_all is_callback ?es" using IH(2) by simp
    moreover have "processed_files st' = processed_files st + int (Suc k)"
      using IH(5) fr(2) None by simp
    moreover have "progress_values ?es = loop_progress c tot (processed_files st) (Suc k)"
      using IH(6) fr(2) None by (simp add: progress_values_append loop_progress_Suc)
    ultimately show ?thesis using IH(3,4,7)
      by (intro exI[of _ ?es] exI[of _ "Suc k"]) simp
  qed
qed

lemma write_output_frame:
  assumes "write_output c ev tot fs st = (r, st')" and "fs \<noteq> [] \<longrightarrow> tot \<noteq> 0"
  shows "\<exists>es k. events st' = events st @ es \<and> list_all is_callback es
           \<and> k \<le> length fs \<and> (r = None \<longrightarrow> k = length fs)
           \<and> processed_files st' = processed_files st + int k
           \<and> progress_values es = loop_progress c tot (processed_files st) k
           \<and> (\<forall>e. r = Some e \<longrightarrow> disk_free ev \<noteq> None \<and> e = ''[Errno 28] No space left on device'')"
proof -
  let ?h = "''--- Project Context for: '' @ os_path_basename (root_dir c) @ '' ---'' @ NL @ NL"
  obtain r0 st0 where w: "outfile_write ev ?h st = (r0, st0)"
    by (cases "outfile_write ev ?h st")
  note fr = outfile_write_frame[OF w]
  show ?thesis
  proof (cases r0)
    case (Some e0)
    with assms(1) w have "r = Some e0" "st' = st0" by (simp_all add: write_output_def)
    with fr Some show ?thesis
      by (intro exI[of _ "[]"] exI[of _ 0]) (simp add: loop_progress_def)
  next
    case None
    with assms(1) w have "process_all c ev tot fs st0 = (r, st')" by (simp add: write_output_def)
    from process_all_frame[OF this assms(2)] fr(1,2) show ?thesis by simp
  qed
qed

lemma process_files_events:
  "\<exists>es k. events (snd (process_files c ev tree)) =
            initial_status c (length (walk c [] tree))
            @ (if open_error ev = None then [OutOpened] @ es @ [OutClosed] else [])
            @ (if finished_callback c then [Finished (fst (process_files c ev tree))] else [])
        \<and> list_all is_callback es
        \<and> k \<le> length (walk c [] tree)
        \<and> progress_values es = loop_progress c (int (length (walk c [] tree))) 0 k
        \<and> (\<forall>n l s. fst (process_files c ev tree) = Success n l s \<longrightarrow>
              k = length (walk c [] tree) \<and> n = int k \<and> open_error ev = None \<and> getsize_error ev = None)
        \<and> (\<forall>m. fst (process_files c ev tree) = Error m \<longrightarrow>
              open_error ev = Some m \<or> getsize_error ev = Some m
              \<or> (disk_free ev \<noteq> None \<and> m = ''[Errno 28] No space left on device''))"
proof -
  let ?fs = "walk c [] tree"
  let ?tot = "int (length ?fs)"
  define st1 where "st1 = update_status c (''Found '' @ str_int ?tot @ '' files to process.'')
     (update_status c ''Starting scan...'' \<lparr>out = [], events = [], processed_files = 0, total_lines = 0\<rparr>)"
  have e1: "events st1 = initial_status c (length ?fs)" and p1: "processed_files st1 = 0"
    by (simp_all add: st1_def update_status_def initial_status_def status_events_def)
  show ?thesis
  proof (cases "open_error ev")
    case (Some e)
    then have "process_files c ev tree = (Error e,
        if finished_callback c then st1\<lparr>events := events st1 @ [Finished (Error e)]\<rparr> else st1)"
      unfolding process_files_def Let_def st1_def[symmetric] by simp
    then show ?thesis using Some e1
      by (intro exI[of _ "[]"] exI[of _ 0]) (simp add: loop_progress_def)
  next
    case None
    define st_open where "st_open = st1\<lparr>out := [], events := events st1 @ [OutOpened]\<rparr>"
    obtain r st_body where wo: "write_output c ev ?tot ?fs st_open = (r, st_body)"
      by (cases "write_output c ev ?tot ?fs st_open")
    have "?fs \<noteq> [] \<longrightarrow> ?tot \<noteq> 0" by simp
    from write_output_frame[OF wo this] obtain es k where
      fr: "events st_body = events st_open @ es" "list_all is_callback es" "k \<le> length ?fs"
        "r = None \<longrightarrow> k = length ?fs" "processed_files st_body = processed_files st_open + int k"
        "progress_values es = loop_progress c ?tot (processed_files st_open) k"
        "\<forall>e. r = Some e \<longrightarrow> disk_free ev \<noteq> None \<and> e = ''[Errno 28] No space left on device''"
      by blast
    define st_closed where "st_closed = st_body\<lparr>events := events st_body @ [OutClosed]\<rparr>"
    define summary where "summary = (case r of Some e \<Rightarrow> Error e
       | None \<Rightarrow> (case getsize_error ev of Some e \<Rightarrow> Error e
           | None \<Rightarrow> Success (processed_files st_closed) (total_lines st_closed)
                             (of_nat (length (out st_closed)) / 1024)))"
    have pf: "process_files c ev tree = (summary,
        if finished_callback c then st_closed\<lparr>events := events st_closed @ [Finished summary]\<rparr>
        else st_closed)"
      unfolding process_files_def Let_def st1_def[symmetric] None option.case
        st_open_def[symmetric] wo prod.case st_closed_def[symmetric] summary_def
      by (simp split: option.splits)
    have ev_closed: "events st_closed = initial_status c (length ?fs) @ [OutOpened] @ es @ [OutClosed]"
      by (simp add: st_closed_def fr(1) st_open_def e1)
    have pc: "processed_files st_closed = int k"
      by (simp add: st_closed_def fr(5) st_open_def p1)
    have succ: "\<forall>n l s. summary = Success n l s \<longrightarrow>
        k = length ?fs \<and> n = int k \<and> getsize_error ev = None"
      using fr(4) pc unfolding summary_def by (auto split: option.splits)
    have err: "\<forall>m. summary = Error m \<longrightarrow> getsize_error ev = Some m
        \<or> (disk_free ev \<noteq> None \<and> m = ''[Errno 28] No space left on device'')"
      using fr(7) unfolding summary_def by (auto split: option.splits)
    show ?thesis
      using None ev_closed fr(2,3,6) succ err unfolding pf
      by (intro exI[of _ es] exI[of _ k]) (auto simp: st_open_def p1)
  qed
qed

lemma write_all_lines:
  "write_all ev ss st = (r, st') \<Longrightarrow> total_lines st' = total_lines st"
  by (drule write_all_frame) simp

lemma write_all_ok:
  "disk_free ev = None \<Longrightarrow> write_all ev ss st = (None, st\<lparr>out := out st @ concat ss\<rparr>)"
  by (induction ss arbitrary: st) (simp_all add: outfile_write_def)

lemma read_and_write_block_lines:
  assumes "read_and_write_block c ev cand st = (r, st')"
  shows "total_lines st' = total_lines st + counted_lines cand"
proof (cases "snd cand")
  case (Inl e)
  with assms show ?thesis by (simp add: read_and_write_block_def counted_lines_def)
next
  case (Inr content)
  with assms obtain ss where
    "write_all ev ss (st\<lparr>total_lines := total_lines st + (count_newlines content + 1)\<rparr>) = (r, st')"
    by (simp add: read_and_write_block_def Let_def del: write_all.simps)
  from write_all_lines[OF this] Inr show ?thesis by (simp add: counted_lines_def)
qed

lemma read_and_write_block_ok:
  assumes "disk_free ev = None"
  shows "read_and_write_block c ev cand st =
     (case snd cand of
        Inl e \<Rightarrow> (Some e, st)
      | Inr content \<Rightarrow>
          (None, st\<lparr>total_lines := total_lines st + (count_newlines content + 1),
                     out := out st @ file_block c (fst cand) content\<rparr>))"
  by (cases "snd cand")
     (simp_all add: read_and_write_block_def Let_def write_all_ok[OF assms] file_block_def
        lang_of_def del: write_all.simps)

lemma process_file_lines:
  assumes "process_file c ev tot cand st = (r, st')"
  shows "total_lines st' = total_lines st + counted_lines cand"
proof -
  define st1 where "st1 = update_status c (''Processing: '' @ relpath (fst cand)) st"
  obtain inner st2 where rw: "read_and_write_block c ev cand st1 = (inner, st2)"
    by (cases "read_and_write_block c ev cand st1")
  have l2: "total_lines st2 = total_lines st + counted_lines cand"
    using read_and_write_block_lines[OF rw] by (simp add: st1_def update_status_def)
  define handled where "handled = (case inner of None \<Rightarrow> (None, st2)
      | Some e \<Rightarrow> outfile_write ev
          (''--- ERROR reading '' @ relpath (fst cand) @ '': '' @ e @ '' ---'' @ NL @ NL) st2)"
  obtain outer st3 where h: "handled = (outer, st3)" by (cases handled)
  have l3: "total_lines st3 = total_lines st2"
    using h unfolding handled_def by (cases inner) (auto dest: outfile_write_frame)
  have "process_file c ev tot cand st = (case outer of Some e \<Rightarrow> (Some e, st3)
      | None \<Rightarrow> (case py_truediv (processed_files (st3\<lparr>processed_files := processed_files st3 + 1\<rparr>)) tot of
           Inl e \<Rightarrow> (Some e, st3\<lparr>processed_files := processed_files st3 + 1\<rparr>)
         | Inr v \<Rightarrow> (None, update_progress c v (st3\<lparr>processed_files := processed_files st3 + 1\<rparr>))))"
    unfolding process_file_def Let_def st1_def[symmetric] rw prod.case handled_def[symmetric] h
    by (cases outer) simp_all
  with assms have "total_lines st' = total_lines st3"
    by (cases outer) (auto simp: update_progress_def split: sum.splits)
  with l2 l3 show ?thesis by simp
qed

lemma process_all_lines:
  "process_all c ev tot fs st = (None, st') \<Longrightarrow>
     total_lines st' = total_lines st + sum_list (map counted_lines fs)"
proof (induction fs arbitrary: st)
  case Nil
  then show ?case by simp
next
  case (Cons f fs)
  obtain r1 st1 where pf: "process_file c ev tot f st = (r1, st1)"
    by (cases "process_file c ev tot f st")
  with Cons.prems have "r1 = None" "process_all c ev tot fs st1 = (None, st')"
    by (cases r1; simp)+
  from Cons.IH[OF this(2)] process_file_lines[OF pf] show ?case by simp
qed

lemma process_file_ok:
  assumes "disk_free ev = None" and "tot \<noteq> 0"
  shows "\<exists>st'. process_file c ev tot cand st = (None, st')
           \<and> out st' = out st @ entry_text c cand"
  using assms(2)
  by (cases "snd cand")
     (simp_all add: process_file_def Let_def read_and_write_block_ok[OF assms(1)]
        outfile_write_def assms(1) py_truediv_def update_progress_def update_status_def
        entry_text_def error_annotation_def)

lemma process_all_ok:
  assumes "disk_free ev = None" and "fs \<noteq> [] \<longrightarrow> tot \<noteq> 0"
  shows "\<exists>st'. process_all c ev tot fs st = (None, st')
           \<and> out st' = out st @ concat (map (entry_text c) fs)"
  using assms(2)
proof (induction fs arbitrary: st)
  case Nil
  then show ?case by simp
next
  case (Cons f fs)
  then have tot: "tot \<noteq> 0" by simp
  from process_file_ok[OF assms(1) tot] obtain st1 where
    pf: "process_file c ev tot f st = (None, st1)" "out st1 = out st @ entry_text c f" by blast
  from Cons.IH[of st1] tot obtain st' where
    "process_all c ev tot fs st1 = (None, st')" "out st' = out st1 @ concat (map (entry_text c) fs)"
    by auto
  with pf show ?case by simp
qed

lemma opened_state_fields [simp]:
  "out (opened_state c n) = []" "processed_files (opened_state c n) = 0"
  "total_lines (opened_state c n) = 0"
  by (simp_all add: opened_state_def Let_def update_status_def)

lemma process_files_opened:
  assumes "open_error ev = None"
    and "write_output c ev (int (length (walk c [] tree))) (walk c [] tree)
           (opened_state c (length (walk c [] tree))) = (r, st_body)"
  shows "fst (process_files c ev tree) =
           (case r of
              Some e \<Rightarrow> Error e
            | None \<Rightarrow>
                (case getsize_error ev of
                   Some e \<Rightarrow> Error e
                 | None \<Rightarrow> Success (processed_files st_body) (total_lines st_body)
                             (of_nat (length (out st_body)) / 1024)))"
    and "out (snd (process_files c ev tree)) = out st_body"
  using assms
  unfolding process_files_def opened_state_def Let_def
  by (simp_all split: option.splits)

lemma process_files_not_opened:
  "open_error ev = Some e \<Longrightarrow> fst (process_files c ev tree) = Error e"
  unfolding process_files_def Let_def by simp

lemma write_output_lines:
  assumes "write_output c ev tot fs st = (None, st')"
  shows "total_lines st' = total_lines st + sum_list (map counted_lines fs)"
proof -
  let ?h = "''--- Project Context for: '' @ os_path_basename (root_dir c) @ '' ---'' @ NL @ NL"
  obtain r0 st0 where w: "outfile_write ev ?h st = (r0, st0)"
    by (cases "outfile_write ev ?h st")
  with assms have "r0 = None" "process_all c ev tot fs st0 = (None, st')"
    by (cases r0; simp add: write_output_def)+
  from process_all_lines[OF this(2)] outfile_write_frame(3)[OF w] show ?thesis by simp
qed

lemma write_output_ok:
  assumes "disk_free ev = None" and "fs \<noteq> [] \<longrightarrow> tot \<noteq> 0"
  shows "\<exists>st'. write_output c ev tot fs st = (None, st')
           \<and> out st' = out st @ project_header c @ concat (map (entry_text c) fs)"
proof -
  let ?st0 = "st\<lparr>out := out st @ project_header c\<rparr>"
  from process_all_ok[OF assms, of c ?st0] obtain st' where
    "process_all c ev tot fs ?st0 = (None, st')"
    "out st' = out ?st0 @ concat (map (entry_text c) fs)" by blast
  then show ?thesis
    by (simp add: write_output_def outfile_write_def assms(1) project_header_def)
qed

lemma process_files_success:
  assumes "fst (process_files c ev tree) = Success n l s"
  shows "open_error ev = None" and "getsize_error ev = None"
    and "n = int (length (walk c [] tree))"
    and "l = sum_list (map counted_lines (walk c [] tree))"
    and "s = of_nat (length (out (snd (process_files c ev tree)))) / 1024"
proof -
  let ?fs = "walk c [] tree"
  show op: "open_error ev = None"
    using assms process_files_not_opened[of ev _ c tree] by (cases "open_error ev") auto
  obtain r st_body where wo:
    "write_output c ev (int (length ?fs)) ?fs (opened_state c (length ?fs)) = (r, st_body)"
    by (cases "write_output c ev (int (length ?fs)) ?fs (opened_state c (length ?fs))")
  note po = process_files_opened[OF op wo]
  from assms po(1) have r: "r = None" by (cases r) auto
  with assms po(1) show gs: "getsize_error ev = None" by (cases "getsize_error ev") auto
  from assms po(1) r gs have nls: "n = processed_files st_body" "l = total_lines st_body"
    "s = of_nat (length (out st_body)) / 1024" by simp_all
  have "?fs \<noteq> [] \<longrightarrow> int (length ?fs) \<noteq> 0" by simp
  from write_output_frame[OF wo this] r show "n = int (length ?fs)" using nls(1) by auto
  from write_output_lines[OF wo[unfolded r]] nls(2)
  show "l = sum_list (map counted_lines ?fs)" by simp
  from nls(3) po(2) show "s = of_nat (length (out (snd (process_files c ev tree)))) / 1024"
    by simp
qed

lemma process_files_ok:
  assumes "open_error ev = None" and "disk_free ev = None"
  shows "out (snd (process_files c ev tree)) =
           project_header c @ concat (map (entry_text c) (walk c [] tree))"
    and "getsize_error ev = None \<Longrightarrow> fst (process_files c ev tree) =
           Success (int (length (walk c [] tree)))
             (sum_list (map counted_lines (walk c [] tree)))
             (of_nat (length (out (snd (process_files c ev tree)))) / 1024)"
proof -
  let ?fs = "walk c [] tree"
  have nz: "?fs \<noteq> [] \<longrightarrow> int (length ?fs) \<noteq> 0" by simp
  from write_output_ok[OF assms(2) nz, of c "opened_state c (length ?fs)"] obtain st_body where
    wo: "write_output c ev (int (length ?fs)) ?fs (opened_state c (length ?fs)) = (None, st_body)"
    and o: "out st_body = project_header c @ concat (map (entry_text c) ?fs)" by auto
  note po = process_files_opened[OF assms(1) wo]
  from po(2) o show "out (snd (process_files c ev tree)) =
           project_header c @ concat (map (entry_text c) ?fs)" by simp
  assume gs: "getsize_error ev = None"
  with po(1) have "fst (process_files c ev tree) = Success (processed_files st_body)
      (total_lines st_body) (of_nat (length (out st_body)) / 1024)" by simp
  from this process_files_success[OF this]
  show "fst (process_files c ev tree) =
           Success (int (length ?fs)) (sum_list (map counted_lines ?fs))
             (of_nat (length (out (snd (process_files c ev tree)))) / 1024)" by simp
qed

lemma ex_walk: "walk ex_config [] ex_tree = [([''a.py''], Inr (''x'' @ NL @ ''y'')), ([''b.py''], Inl ''denied''), ([''s'', ''d.py''], Inr [])]"
  by (simp add: ex_config_def ex_tree_def walk.simps is_candidate_def endswith_def)

lemma ex_env_ok: "open_error ex_env = None" "disk_free ex_env = None" "getsize_error ex_env = None"
  by (simp_all add: ex_env_def)

lemma ex_out_length: "length (out (snd (process_files ex_config ex_env ex_tree))) = 455"
  unfolding process_files_ok(1)[OF ex_env_ok(1,2)] ex_walk
  by (simp add: project_header_def entry_text_def file_block_def error_annotation_def lang_of_def
      ex_config_def os_path_basename_def lstrip_dots_def splitext_ext_def file_path_of_def
      os_path_join_def)

lemma ex_summary: "fst (process_files ex_config ex_env ex_tree) = Success 3 3 (455 / 1024)"
  unfolding process_files_ok(2)[OF ex_env_ok] ex_out_length ex_walk
  by (simp add: counted_lines_def count_newlines_def)

lemma count_newlines_nonneg: "0 \<le> count_newlines content"
  by (simp add: count_newlines_def)

lemma counted_lines_nonneg: "0 \<le> counted_lines cand"
  by (cases "snd cand") (simp_all add: counted_lines_def count_newlines_nonneg)

lemma sum_counted_lines_nonneg: "0 \<le> sum_list (map counted_lines fs)"
  by (induction fs) (simp_all add: counted_lines_nonneg)

lemma in_concat_map:
  "x \<in> set xs \<Longrightarrow> \<exists>pre post. concat (map f xs) = pre @ f x @ post"
proof -
  assume "x \<in> set xs"
  then obtain ys zs where "xs = ys @ x # zs" by (blast dest: split_list)
  then have "concat (map f xs) = concat (map f ys) @ f x @ concat (map f zs)" by simp
  then show ?thesis by blast
qed

lemma progress_values_initial [simp]: "progress_values (initial_status c n) = []"
  by (simp add: initial_status_def progress_values_append)

lemma process_files_progress:
  "\<exists>k \<le> length (walk c [] tree).
     progress_values (events (snd (process_files c ev tree)))
       = loop_progress c (int (length (walk c [] tree))) 0 k
     \<and> ((\<exists>n l s. fst (process_files c ev tree) = Success n l s) \<longrightarrow> k = length (walk c [] tree))"
proof -
  from process_files_events[of c ev tree] obtain es k where
    e: "events (snd (process_files c ev tree)) =
            initial_status c (length (walk c [] tree))
            @ (if open_error ev = None then [OutOpened] @ es @ [OutClosed] else [])
            @ (if finished_callback c then [Finished (fst (process_files c ev tree))] else [])"
    and k: "k \<le> length (walk c [] tree)"
    and p: "progress_values es = loop_progress c (int (length (walk c [] tree))) 0 k"
    and s: "\<forall>n l s. fst (process_files c ev tree) = Success n l s \<longrightarrow>
              k = length (walk c [] tree) \<and> n = int k \<and> open_error ev = None \<and> getsize_error ev = None"
    by blast
  have pv: "progress_values (events (snd (process_files c ev tree)))
      = (if open_error ev = None then progress_values es else [])"
    unfolding e by (simp add: progress_values_append)
  show ?thesis
  proof (cases "open_error ev = None")
    case True
    show ?thesis
    proof (intro exI[of _ k] conjI impI)
      show "k \<le> length (walk c [] tree)" by (rule k)
      show "progress_values (events (snd (process_files c ev tree)))
              = loop_progress c (int (length (walk c [] tree))) 0 k"
        using pv p True by simp
      assume "\<exists>n l s. fst (process_files c ev tree) = Success n l s"
      then obtain n l s' where "fst (process_files c ev tree) = Success n l s'" by blast
      with s show "k = length (walk c [] tree)" by blast
    qed
  next
    case False
    then obtain e' where oe: "open_error ev = Some e'" by auto
    show ?thesis
    proof (intro exI[of _ 0] conjI impI)
      show "0 \<le> length (walk c [] tree)" by simp
      show "progress_values (events (snd (process_files c ev tree)))
              = loop_progress c (int (length (walk c [] tree))) 0 0"
        using pv False by (simp add: loop_progress_def)
      assume "\<exists>n l s. fst (process_files c ev tree) = Success n l s"
      with process_files_not_opened[OF oe, of c tree] show "0 = length (walk c [] tree)" by auto
    qed
  qed
qed

lemma ex_empty_out:
  "out (snd (process_files ex_config ex_env [])) = ''--- Project Context for: build ---'' @ NL @ NL"
  unfolding process_files_ok(1)[OF ex_env_ok(1,2)]
  by (simp add: walk.simps project_header_def ex_config_def os_path_basename_def)

lemma ex_empty_summary: "fst (process_files ex_config ex_env []) = Success 0 0 (9 / 256)"
  unfolding process_files_ok(2)[OF ex_env_ok] ex_empty_out
  by (simp add: walk.simps)

lemma ex_failed_walk:
  "walk ex_config [] [File ''b.py'' (Inl ''denied'')] = [([''b.py''], Inl ''denied'')]"
  by (simp add: ex_config_def walk.simps is_candidate_def endswith_def)

lemma ex_failed_out_length:
  "length (out (snd (process_files ex_config ex_env [File ''b.py'' (Inl ''denied'')]))) = 72"
  unfolding process_files_ok(1)[OF ex_env_ok(1,2)] ex_failed_walk
  by (simp add: project_header_def entry_text_def error_annotation_def ex_config_def
      os_path_basename_def)

lemma ex_failed_summary:
  "fst (process_files ex_config ex_env [File ''b.py'' (Inl ''denied'')]) = Success 1 0 (9 / 128)"
  unfolding process_files_ok(2)[OF ex_env_ok] ex_failed_out_length ex_failed_walk
  by (simp add: counted_lines_def)

lemma length_loop_progress:
  "length (loop_progress c tot done k) = (if progress_callback c then k else 0)"
  by (simp add: loop_progress_def)

lemma process_files_error_cause:
  assumes "fst (process_files c ev tree) = Error m"
  shows "open_error ev = Some m \<or> getsize_error ev = Some m
         \<or> (disk_free ev \<noteq> None \<and> m = ''[Errno 28] No space left on device'')"
  using process_files_events[of c ev tree] assms by blast

lemma ex_none_walk: "walk ex_config [] [File ''e.txt'' (Inr ''t'')] = []"
  by (simp add: ex_config_def walk.simps is_candidate_def endswith_def)









lemma walk_paths:
  "fst ` set (walk c [] tree) = {p \<in> set (files_in tree). spec_selected c p}"
  using walk_set_aux(1)[of c "[]" tree] by simp

lemma block_has_separator: "CHR ''='' \<in> set (file_block c p content)"
  by (simp add: file_block_def)

lemma block_appears_separator:
  "block_appears c p output \<Longrightarrow> CHR ''='' \<in> set output"
  using block_has_separator by (auto simp: block_appears_def)

lemma ex_failed_out:
  "out (snd (process_files ex_config ex_env [File ''b.py'' (Inl ''denied'')])) =
     ''--- Project Context for: build ---'' @ NL @ NL @ ''--- ERROR reading b.py: denied ---'' @ NL @ NL"
  unfolding process_files_ok(1)[OF ex_env_ok(1,2)] ex_failed_walk
  by (simp add: project_header_def entry_text_def error_annotation_def ex_config_def
      os_path_basename_def)








section \<open>The properties\<close>

text \<open>
  C1 (as stated): the files whose blocks appear in the output are exactly the files selected
  by the suffix and exclude rules. It fails for a selected file whose read raises: the
  output has an error annotation for it and no block.
\<close>

theorem C1_block_set_counterexample:
  "[''b.py''] \<in> set (files_in [File ''b.py'' (Inl ''denied'')])
   \<and> spec_selected ex_config [''b.py'']
   \<and> \<not> block_appears ex_config [''b.py'']
          (out (snd (process_files ex_config ex_env [File ''b.py'' (Inl ''denied'')])))"
proof (intro conjI)
  show "[''b.py''] \<in> set (files_in [File ''b.py'' (Inl ''denied'')])" by simp
  show "spec_selected ex_config [''b.py'']"
    unfolding is_candidate_iff[symmetric]
    by (simp add: is_candidate_def endswith_def ex_config_def)
  show "\<not> block_appears ex_config [''b.py'']
          (out (snd (process_files ex_config ex_env [File ''b.py'' (Inl ''denied'')])))"
  proof
    assume "block_appears ex_config [''b.py'']
          (out (snd (process_files ex_config ex_env [File ''b.py'' (Inl ''denied'')])))"
    from block_appears_separator[OF this] show False unfolding ex_failed_out by simp
  qed
qed

text \<open>
  C1 (amended): the files that get an entry in the output (a block when the read succeeds,
  an inline error annotation when it raises) are exactly the files of the tree whose name
  ends with one of \<open>include_ext\<close>, is not in \<open>exclude_patterns\<close>, and that lie under no
  directory, at any depth below the root, whose name is in \<open>exclude_patterns\<close>; when the
  output side raises nothing, the output is the project header followed by these entries in
  the order of the walk.
\<close>

theorem C1_candidates_exact:
  assumes "open_error ev = None" and "disk_free ev = None"
  shows "fst ` set (walk c [] tree) = {p \<in> set (files_in tree). spec_selected c p}
         \<and> out (snd (process_files c ev tree))
             = project_header c @ concat (map (entry_text c) (walk c [] tree))"
  using walk_paths[of c tree] process_files_ok(1)[OF assms, of c tree] by simp

theorem C1_candidates_exact_witness:
  "open_error ex_env = None \<and> disk_free ex_env = None
   \<and> {p \<in> set (files_in ex_tree). spec_selected ex_config p}
       = {[''a.py''], [''b.py''], [''s'', ''d.py'']}
   \<and> out (snd (process_files ex_config ex_env ex_tree))
       = project_header ex_config
         @ file_block ex_config [''a.py''] (''x'' @ NL @ ''y'')
         @ error_annotation [''b.py''] ''denied''
         @ file_block ex_config [''s'', ''d.py''] []"
proof -
  note inst = C1_candidates_exact[OF ex_env_ok(1,2), of ex_config ex_tree]
  have "{p \<in> set (files_in ex_tree). spec_selected ex_config p}
       = {[''a.py''], [''b.py''], [''s'', ''d.py'']}"
    unfolding inst[THEN conjunct1, symmetric] ex_walk by simp
  moreover have "out (snd (process_files ex_config ex_env ex_tree))
       = project_header ex_config
         @ file_block ex_config [''a.py''] (''x'' @ NL @ ''y'')
         @ error_annotation [''b.py''] ''denied''
         @ file_block ex_config [''s'', ''d.py''] []"
    unfolding inst[THEN conjunct2] ex_walk by (simp add: entry_text_def)
  ultimately show ?thesis using ex_env_ok(1,2) by blast
qed



text \<open>
  C3 (as stated): a candidate whose read fails gets an inline annotation, the run goes on,
  progress advances, and the failed file is not counted in \<open>files_processed\<close>. The last part
  fails: \<open>processed_files\<close> is incremented after the inner \<^verbatim>\<open>try\<close>, for every candidate.
  With one candidate, whose read fails, the summary reports 1 file processed.
\<close>

theorem C3_failed_file_counted_counterexample:
  "walk ex_config [] [File ''b.py'' (Inl ''denied'')] = [([''b.py''], Inl ''denied'')]
   \<and> fst (process_files ex_config ex_env [File ''b.py'' (Inl ''denied'')]) = Success 1 0 (9 / 128)"
  by (simp add: ex_failed_walk ex_failed_summary)

text \<open>
  C3 (amended): when the output side raises nothing, a candidate whose read fails gets the
  inline annotation in the output and the run goes on to a Success summary; \<open>files_processed\<close>
  is the number of all candidates, those whose read failed included; such a file adds nothing
  to \<open>total_lines\<close>; one progress value is reported per candidate.
\<close>

theorem C3_read_failure_recovered:
  assumes "open_error ev = None" and "disk_free ev = None" and "getsize_error ev = None"
  shows "fst (process_files c ev tree) =
           Success (int (length (walk c [] tree)))
             (\<Sum>cand \<leftarrow> walk c [] tree.
                case snd cand of Inl e \<Rightarrow> 0 | Inr text \<Rightarrow> count_newlines text + 1)
             (of_nat (length (out (snd (process_files c ev tree)))) / 1024)
         \<and> (\<forall>p e. (p, Inl e) \<in> set (walk c [] tree) \<longrightarrow>
               (\<exists>pre post. out (snd (process_files c ev tree)) =
                  pre @ ''--- ERROR reading '' @ relpath p @ '': '' @ e @ '' ---'' @ NL @ NL @ post))
         \<and> (progress_callback c \<longrightarrow>
               length (progress_values (events (snd (process_files c ev tree))))
                 = length (walk c [] tree))"
proof (intro conjI allI impI)
  show "fst (process_files c ev tree) =
           Success (int (length (walk c [] tree)))
             (\<Sum>cand \<leftarrow> walk c [] tree.
                case snd cand of Inl e \<Rightarrow> 0 | Inr text \<Rightarrow> count_newlines text + 1)
             (of_nat (length (out (snd (process_files c ev tree)))) / 1024)"
    using process_files_ok(2)[OF assms] by (simp add: counted_lines_def[abs_def])
next
  fix p e
  assume "(p, Inl e) \<in> set (walk c [] tree)"
  from in_concat_map[OF this, of "entry_text c"] obtain pre post where
    "concat (map (entry_text c) (walk c [] tree)) = pre @ entry_text c (p, Inl e) @ post"
    by blast
  then have "out (snd (process_files c ev tree)) =
      (project_header c @ pre) @ ''--- ERROR reading '' @ relpath p @ '': '' @ e @ '' ---'' @ NL @ NL @ post"
    unfolding process_files_ok(1)[OF assms(1,2)]
    by (simp add: entry_text_def error_annotation_def)
  then show "\<exists>pre post. out (snd (process_files c ev tree)) =
      pre @ ''--- ERROR reading '' @ relpath p @ '': '' @ e @ '' ---'' @ NL @ NL @ post"
    by blast
next
  assume pc: "progress_callback c"
  from process_files_ok(2)[OF assms] obtain n l s where
    "fst (process_files c ev tree) = Success n l s" by blast
  with process_files_progress[of c tree ev] pc
  show "length (progress_values (events (snd (process_files c ev tree)))) = length (walk c [] tree)"
    by (auto simp: length_loop_progress)
qed

theorem C3_read_failure_recovered_witness:
  "fst (process_files ex_config ex_env ex_tree) = Success 3 3 (455 / 1024)
   \<and> (\<exists>pre post. out (snd (process_files ex_config ex_env ex_tree)) =
         pre @ ''--- ERROR reading b.py: denied ---'' @ NL @ NL @ post)
   \<and> length (progress_values (events (snd (process_files ex_config ex_env ex_tree)))) = 3"
proof -
  note inst = C3_read_failure_recovered[OF ex_env_ok, of ex_config ex_tree]
  have m: "([''b.py''], Inl ''denied'') \<in> set (walk ex_config [] ex_tree)"
    by (simp add: ex_walk)
  have pc: "progress_callback ex_config" by (simp add: ex_config_def)
  from inst[THEN conjunct2, THEN conjunct1, rule_format, OF m]
  have "\<exists>pre post. out (snd (process_files ex_config ex_env ex_tree)) =
         pre @ ''--- ERROR reading b.py: denied ---'' @ NL @ NL @ post" by simp
  moreover from inst[THEN conjunct2, THEN conjunct2, rule_format, OF pc]
  have "length (progress_values (events (snd (process_files ex_config ex_env ex_tree)))) = 3"
    by (simp add: ex_walk)
  ultimately show ?thesis using ex_summary by blast
qed

text \<open>
  C4 (as stated): the Success summary has a field holding the size of the output file in
  bytes, a non-negative integer. It fails: the summary's third field is \<open>output_size_kb\<close>, the
  size divided by 1024. For an empty tree the file has 36 bytes and the field is 9/256.
\<close>

theorem C4_size_field_counterexample:
  "fst (process_files ex_config ex_env []) = Success 0 0 (9 / 256)
   \<and> length (out (snd (process_files ex_config ex_env []))) = 36
   \<and> (9 / 256 :: rat) \<noteq> of_nat 36"
  by (simp add: ex_empty_summary ex_empty_out)

text \<open>
  C4 (amended): in every run that ends in Success, the summary's \<open>output_size_kb\<close> is the
  size of the output file in bytes divided by 1024, and it is non-negative, as are
  \<open>files_processed\<close> and \<open>total_lines\<close>.
\<close>

theorem C4_output_size_kb:
  assumes "fst (process_files c ev tree) = Success n l s"
  shows "s = of_nat (length (out (snd (process_files c ev tree)))) / 1024
         \<and> 0 \<le> s \<and> 0 \<le> n \<and> 0 \<le> l"
proof -
  note ps = process_files_success[OF assms]
  have "0 \<le> s" unfolding ps(5) by simp
  moreover have "0 \<le> n" unfolding ps(3) by simp
  moreover have "0 \<le> l" unfolding ps(4) by (rule sum_counted_lines_nonneg)
  ultimately show ?thesis using ps(5) by simp
qed

theorem C4_output_size_kb_witness:
  "fst (process_files ex_config ex_env ex_tree) = Success 3 3 (455 / 1024)
   \<and> (455 / 1024 :: rat) = of_nat (length (out (snd (process_files ex_config ex_env ex_tree)))) / 1024
   \<and> (0::rat) \<le> 455 / 1024 \<and> (0::int) \<le> 3 \<and> (0::int) \<le> 3"
  by (rule conjI[OF ex_summary C4_output_size_kb[OF ex_summary]])



text \<open>
  C6: when the walk finds no candidate and the output side raises nothing, the run ends in
  a Success summary with \<open>files_processed = 0\<close> and \<open>total_lines = 0\<close>, and the output file
  holds the project header only. In every environment no progress value is reported (the
  division of line 107 is inside the loop, which has no round), and an Error summary can only
  carry a fault of the output side, never a division fault.
\<close>

theorem C6_no_candidates:
  assumes "walk c [] tree = []"
  shows "(open_error ev = None \<and> disk_free ev = None \<and> getsize_error ev = None \<longrightarrow>
            fst (process_files c ev tree)
              = Success 0 0 (of_nat (length (out (snd (process_files c ev tree)))) / 1024)
            \<and> out (snd (process_files c ev tree))
              = ''--- Project Context for: '' @ os_path_basename (root_dir c) @ '' ---'' @ NL @ NL)
         \<and> progress_values (events (snd (process_files c ev tree))) = []
         \<and> (\<forall>m. fst (process_files c ev tree) = Error m \<longrightarrow>
               open_error ev = Some m \<or> getsize_error ev = Some m
               \<or> (disk_free ev \<noteq> None \<and> m = ''[Errno 28] No space left on device''))"
proof (intro conjI impI allI)
  assume ok: "open_error ev = None \<and> disk_free ev = None \<and> getsize_error ev = None"
  then have o: "open_error ev = None" and d: "disk_free ev = None" and g: "getsize_error ev = None"
    by simp_all
  from process_files_ok(2)[OF o d g, of c tree] assms
  show "fst (process_files c ev tree)
          = Success 0 0 (of_nat (length (out (snd (process_files c ev tree)))) / 1024)"
    by simp
  from process_files_ok(1)[OF o d, of c tree] assms
  show "out (snd (process_files c ev tree))
          = ''--- Project Context for: '' @ os_path_basename (root_dir c) @ '' ---'' @ NL @ NL"
    by (simp add: project_header_def)
next
  from process_files_progress[of c tree ev] assms
  show "progress_values (events (snd (process_files c ev tree))) = []"
    by (auto simp: loop_progress_def)
next
  fix m
  assume "fst (process_files c ev tree) = Error m"
  then show "open_error ev = Some m \<or> getsize_error ev = Some m
     \<or> (disk_free ev \<noteq> None \<and> m = ''[Errno 28] No space left on device'')"
    by (rule process_files_error_cause)
qed

theorem C6_no_candidates_witness:
  "walk ex_config [] [File ''e.txt'' (Inr ''t'')] = []
   \<and> fst (process_files ex_config ex_env [File ''e.txt'' (Inr ''t'')]) = Success 0 0 (9 / 256)
   \<and> out (snd (process_files ex_config ex_env [File ''e.txt'' (Inr ''t'')]))
        = ''--- Project Context for: build ---'' @ NL @ NL
   \<and> progress_values (events (snd (process_files ex_config ex_env [File ''e.txt'' (Inr ''t'')]))) = []"
proof -
  note inst = C6_no_candidates[OF ex_none_walk, of ex_env]
  have ok: "open_error ex_env = None \<and> disk_free ex_env = None \<and> getsize_error ex_env = None"
    by (simp add: ex_env_def)
  note a = inst[THEN conjunct1, rule_format, OF ok]
  have o: "out (snd (process_files ex_config ex_env [File ''e.txt'' (Inr ''t'')]))
        = ''--- Project Context for: build ---'' @ NL @ NL"
    using a[THEN conjunct2] by (simp add: ex_config_def os_path_basename_def)
  have s: "fst (process_files ex_config ex_env [File ''e.txt'' (Inr ''t'')]) = Success 0 0 (9 / 256)"
    using a[THEN conjunct1] unfolding o by simp
  show ?thesis using ex_none_walk s o inst[THEN conjunct2, THEN conjunct1] by blast
qed

text \<open>
  C7: when the output side raises nothing and the read of a candidate fails, the run still
  ends in Success; the output is the project header followed by the entries of all
  candidates in order, with the inline error annotation at the place of the failed file, and
  the block of every other candidate that was read is part of the output.
\<close>

theorem C7_read_failure_isolated:
  assumes "open_error ev = None" and "disk_free ev = None" and "getsize_error ev = None"
    and "walk c [] tree = before @ (p, Inl e) # after"
  shows "(\<exists>n l s. fst (process_files c ev tree) = Success n l s)
         \<and> out (snd (process_files c ev tree)) =
             project_header c @ concat (map (entry_text c) before)
             @ (''--- ERROR reading '' @ relpath p @ '': '' @ e @ '' ---'' @ NL @ NL)
             @ concat (map (entry_text c) after)
         \<and> (\<forall>q content. (q, Inr content) \<in> set before \<union> set after \<longrightarrow>
               (\<exists>pre post. out (snd (process_files c ev tree)) = pre @ file_block c q content @ post))"
proof (intro conjI allI impI)
  from process_files_ok(2)[OF assms(1-3), of c tree]
  show "\<exists>n l s. fst (process_files c ev tree) = Success n l s" by blast
next
  show "out (snd (process_files c ev tree)) =
             project_header c @ concat (map (entry_text c) before)
             @ (''--- ERROR reading '' @ relpath p @ '': '' @ e @ '' ---'' @ NL @ NL)
             @ concat (map (entry_text c) after)"
    unfolding process_files_ok(1)[OF assms(1,2)] assms(4)
    by (simp add: entry_text_def error_annotation_def)
next
  fix q content
  assume "(q, Inr content) \<in> set before \<union> set after"
  then have "(q, Inr content) \<in> set (walk c [] tree)" unfolding assms(4) by auto
  from in_concat_map[OF this, of "entry_text c"] obtain pre post where
    "concat (map (entry_text c) (walk c [] tree)) = pre @ entry_text c (q, Inr content) @ post"
    by blast
  then have "out (snd (process_files c ev tree)) = (project_header c @ pre) @ file_block c q content @ post"
    unfolding process_files_ok(1)[OF assms(1,2)] by (simp add: entry_text_def)
  then show "\<exists>pre post. out (snd (process_files c ev tree)) = pre @ file_block c q content @ post"
    by blast
qed

theorem C7_read_failure_isolated_witness:
  "fst (process_files ex_config ex_env ex_tree) = Success 3 3 (455 / 1024)
   \<and> out (snd (process_files ex_config ex_env ex_tree)) =
        project_header ex_config
        @ file_block ex_config [''a.py''] (''x'' @ NL @ ''y'')
        @ ''--- ERROR reading b.py: denied ---'' @ NL @ NL
        @ file_block ex_config [''s'', ''d.py''] []"
proof -
  have w: "walk ex_config [] ex_tree =
      [([''a.py''], Inr (''x'' @ NL @ ''y''))] @ ([''b.py''], Inl ''denied'') # [([''s'', ''d.py''], Inr [])]"
    by (simp add: ex_walk)
  from C7_read_failure_isolated[OF ex_env_ok w, THEN conjunct2, THEN conjunct1]
  have "out (snd (process_files ex_config ex_env ex_tree)) =
        project_header ex_config
        @ file_block ex_config [''a.py''] (''x'' @ NL @ ''y'')
        @ ''--- ERROR reading b.py: denied ---'' @ NL @ NL
        @ file_block ex_config [''s'', ''d.py''] []"
    by (simp add: entry_text_def)
  with ex_summary show ?thesis by blast
qed





text \<open>
  C10: the exclude patterns are compared with the names of directories met below the root
  only. Even when the base name of \<open>root_dir\<close> is itself in \<open>exclude_patterns\<close>, every file
  directly in the root that passes the test of line 69 is a candidate, no candidate lies
  below a directory named as an exclude pattern, and (when the output side raises nothing)
  every selected file of the tree has its entry in the output.
\<close>

theorem C10_root_not_pruned:
  assumes "os_path_basename (root_dir c) \<in> set (exclude_patterns c)"
    and "open_error ev = None" and "disk_free ev = None"
  shows "(\<forall>filename r. File filename r \<in> set tree \<and> is_candidate c filename \<longrightarrow>
            ([filename], r) \<in> set (walk c [] tree))
         \<and> (\<forall>p r. (p, r) \<in> set (walk c [] tree) \<longrightarrow>
               (\<forall>d \<in> set (butlast p). d \<notin> set (exclude_patterns c)))
         \<and> (\<forall>p \<in> set (files_in tree). spec_selected c p \<longrightarrow>
               (\<exists>r pre post. (p, r) \<in> set (walk c [] tree)
                  \<and> out (snd (process_files c ev tree)) = pre @ entry_text c (p, r) @ post))"
proof (intro conjI ballI impI allI)
  fix filename r
  assume "File filename r \<in> set tree \<and> is_candidate c filename"
  then have "([filename], r) \<in> set (files_here c [] tree)"
    using files_here_member[of filename r tree c "[]"] by simp
  then show "([filename], r) \<in> set (walk c [] tree)" by (simp add: walk.simps)
next
  fix p r d
  assume "(p, r) \<in> set (walk c [] tree)" and d: "d \<in> set (butlast p)"
  then have "p \<in> fst ` set (walk c [] tree)" by force
  then have "spec_selected c p" unfolding walk_paths by simp
  with d show "d \<notin> set (exclude_patterns c)" by (simp add: spec_selected_def)
next
  fix p
  assume "p \<in> set (files_in tree)" and "spec_selected c p"
  then have "p \<in> fst ` set (walk c [] tree)" unfolding walk_paths by simp
  then obtain r where m: "(p, r) \<in> set (walk c [] tree)" by force
  from in_concat_map[OF m, of "entry_text c"] obtain pre post where
    "concat (map (entry_text c) (walk c [] tree)) = pre @ entry_text c (p, r) @ post" by blast
  then have "out (snd (process_files c ev tree)) = (project_header c @ pre) @ entry_text c (p, r) @ post"
    unfolding process_files_ok(1)[OF assms(2,3)] by simp
  with m show "\<exists>r pre post. (p, r) \<in> set (walk c [] tree)
              \<and> out (snd (process_files c ev tree)) = pre @ entry_text c (p, r) @ post"
    by blast
qed

theorem C10_root_not_pruned_witness:
  "os_path_basename (root_dir ex_config) \<in> set (exclude_patterns ex_config)
   \<and> File ''a.py'' (Inr (''x'' @ NL @ ''y'')) \<in> set ex_tree \<and> is_candidate ex_config ''a.py''
   \<and> ([''a.py''], Inr (''x'' @ NL @ ''y'')) \<in> set (walk ex_config [] ex_tree)
   \<and> [''s'', ''d.py''] \<in> set (files_in ex_tree) \<and> spec_selected ex_config [''s'', ''d.py'']
   \<and> (\<exists>r pre post. ([''s'', ''d.py''], r) \<in> set (walk ex_config [] ex_tree)
          \<and> out (snd (process_files ex_config ex_env ex_tree))
               = pre @ entry_text ex_config ([''s'', ''d.py''], r) @ post)"
proof -
  have root: "os_path_basename (root_dir ex_config) \<in> set (exclude_patterns ex_config)"
    by (simp add: ex_config_def os_path_basename_def)
  note inst = C10_root_not_pruned[OF root ex_env_ok(1,2), of ex_tree]
  have a: "File ''a.py'' (Inr (''x'' @ NL @ ''y'')) \<in> set ex_tree \<and> is_candidate ex_config ''a.py''"
    by (simp add: ex_tree_def is_candidate_def endswith_def ex_config_def)
  note a_in = inst[THEN conjunct1, rule_format, OF a]
  have f: "[''s'', ''d.py''] \<in> set (files_in ex_tree)" by (simp add: ex_tree_def)
  have "is_candidate ex_config ''d.py''"
    by (simp add: is_candidate_def endswith_def ex_config_def)
  then have s: "spec_selected ex_config [''s'', ''d.py'']"
    by (simp add: spec_selected_Cons is_candidate_iff) (simp add: ex_config_def)
  note d_in = inst[THEN conjunct2, THEN conjunct2, rule_format, OF f s]
  show ?thesis using root a a_in f s d_in by blast
qed

end
